theory Spec2Isabelle
  imports Main
begin

section \<open>Data model\<close>

text \<open>
  The plugin has two commands, both in \<^verbatim>\<open>src/sources/commands/apply.ts\<close>:
  \<^verbatim>\<open>VersionApplyCommand\<close> (\<^verbatim>\<open>yarn version apply\<close>) and
  \<^verbatim>\<open>VersionCheckCommand\<close> (\<^verbatim>\<open>yarn version check\<close>). Both work on
  \<^verbatim>\<open>Workspace\<close> objects of \<^verbatim>\<open>@yarnpkg/core\<close>, which the code only
  compares by identity and uses as keys of \<^verbatim>\<open>Map\<close>s and members of
  \<^verbatim>\<open>Set\<close>s. A workspace is identified here by its \<^verbatim>\<open>cwd\<close>, the key the
  check command's form gives it.
\<close>

type_synonym workspace = string

text \<open>
  Modelled from the spec: the type \<^verbatim>\<open>versionUtils.Decision\<close> is declared in
  \<^verbatim>\<open>sources/versionUtils\<close>, which is not among the source files. The spec (3, 9)
  gives it as a closed variant: undecided, decline, an increment keyword, or an explicit
  version string. The check command names \<^verbatim>\<open>UNDECIDED\<close>, \<^verbatim>\<open>DECLINE\<close>,
  \<^verbatim>\<open>PATCH\<close>, \<^verbatim>\<open>MINOR\<close> and \<^verbatim>\<open>MAJOR\<close>.
\<close>

datatype decision = UNDECIDED | DECLINE | PATCH | MINOR | MAJOR | PRERELEASE | Explicit string

text \<open>
  Modelled from the spec: \<^verbatim>\<open>versionUtils.Releases\<close>, a JavaScript \<^verbatim>\<open>Map\<close> from
  workspaces to decisions (spec 3: keys unique, insertion order irrelevant).
  \<^verbatim>\<open>m.get(w)\<close> is \<open>m w\<close> (\<open>None\<close> for \<^verbatim>\<open>undefined\<close>), \<^verbatim>\<open>m.set(w, d)\<close> is
  \<open>m(w \<mapsto> d)\<close>, \<^verbatim>\<open>m.delete(w)\<close> is \<open>m(w := None)\<close>, \<^verbatim>\<open>m.size === 0\<close> is
  \<open>dom m = {}\<close>.
\<close>

type_synonym releases = "workspace \<rightharpoonup> decision"

text \<open>
  Modelled from the spec: the project of \<^verbatim>\<open>@yarnpkg/core\<close>, as far as the propagation
  engine reads it (spec 6, workspace model): the list of workspaces, and for each workspace
  the workspaces its manifest depends on.
\<close>

record project =
  workspaces :: "workspace list"
  dependencies :: "workspace \<Rightarrow> workspace list"

text \<open>
  Modelled from the spec: the \<^verbatim>\<open>VersionFile\<close> aggregate that
  \<^verbatim>\<open>versionUtils.openVersionFile\<close> returns (spec 3). \<open>root\<close> is \<open>None\<close> for
  \<^verbatim>\<open>null\<close>.
\<close>

record versionFile =
  project :: project
  root :: "string option"
  changedFiles :: "string set"
  releaseRoots :: "workspace set"
  releases :: releases

section \<open>The dependency propagation helper\<close>

text \<open>
  Modelled from the spec: \<^verbatim>\<open>versionUtils.getUndecidedDependentWorkspaces\<close> is called
  by \<^verbatim>\<open>getRelevancy\<close> but defined in \<^verbatim>\<open>sources/versionUtils\<close>, which is not
  among the source files. Spec 4.3: for every workspace in the dependency graph, if it
  depends on any workspace present as a key in \<^verbatim>\<open>releases\<close> with a decision other than
  \<^verbatim>\<open>DECLINE\<close>, and the dependent itself has no entry in \<^verbatim>\<open>releases\<close> yet, it is
  added to the result with decision \<^verbatim>\<open>UNDECIDED\<close>.
\<close>

definition getUndecidedDependentWorkspaces :: "project \<Rightarrow> releases \<Rightarrow> (workspace \<times> decision) list" where
  "getUndecidedDependentWorkspaces p rel =
     map (\<lambda>w. (w, UNDECIDED))
       (filter (\<lambda>w. (\<exists>d \<in> set (dependencies p w). case rel d of None \<Rightarrow> False | Some dec \<Rightarrow> dec \<noteq> DECLINE)
                     \<and> rel w = None)
          (workspaces p))"

section \<open>The check command: relevancy\<close>

text \<open>
  \<^verbatim>\<open>getRelevancy\<close> (apply.ts, lines 294 to 342) returns the pair
  \<^verbatim>\<open>{relevantWorkspaces, relevantReleases}\<close>; the same pair is the state of its loop.
\<close>

record relevancy =
  relevantWorkspaces :: "workspace set"
  relevantReleases :: releases

text \<open>
  The body of the \<^verbatim>\<open>for\<close> loop (lines 319 to 330), for one element
  \<^verbatim>\<open>[workspace]\<close> of the helper's result. The flag is \<^verbatim>\<open>hasNewDependents\<close>.
\<close>

fun addDependent :: "releases \<Rightarrow> relevancy \<times> bool \<Rightarrow> workspace \<times> decision \<Rightarrow> relevancy \<times> bool" where
  "addDependent rel (s, hasNewDependents) (w, _) =
     (if w \<notin> relevantWorkspaces s
      then (let s1 = s\<lparr>relevantWorkspaces := insert w (relevantWorkspaces s)\<rparr>;
                release = rel w
            in ((case release of
                   Some r \<Rightarrow> s1\<lparr>relevantReleases := (relevantReleases s1)(w \<mapsto> r)\<rparr>
                 | None \<Rightarrow> s1), True))
      else (s, hasNewDependents))"

text \<open>
  One pass of the \<^verbatim>\<open>while (true)\<close> body (lines 311 to 331): call the helper on
  \<^verbatim>\<open>relevantReleases\<close>, reset \<^verbatim>\<open>hasNewDependents\<close>, run the \<^verbatim>\<open>for\<close> loop
  when the list is not empty.
\<close>

definition relevancyIteration :: "project \<Rightarrow> releases \<Rightarrow> relevancy \<Rightarrow> relevancy \<times> bool" where
  "relevancyIteration p rel s =
     (let undecidedDependentWorkspaces = getUndecidedDependentWorkspaces p (relevantReleases s)
      in if length undecidedDependentWorkspaces > 0
         then foldl (addDependent rel) (s, False) undecidedDependentWorkspaces
         else (s, False))"

text \<open>
  The \<^verbatim>\<open>while (true)\<close> loop (lines 310 to 336), left only by the \<^verbatim>\<open>break\<close> of
  line 334. A loop that never breaks has the value \<open>None\<close>.
\<close>

partial_function (option) relevancyLoop :: "project \<Rightarrow> releases \<Rightarrow> relevancy \<Rightarrow> relevancy option" where
  "relevancyLoop p rel s =
     (case relevancyIteration p rel s of
        (s', hasNewDependents) \<Rightarrow> if \<not> hasNewDependents then Some s' else relevancyLoop p rel s')"

text \<open>
  \<^verbatim>\<open>getRelevancy(releases)\<close>, a closure over \<^verbatim>\<open>versionFile\<close>: the loop started from
  a copy of the release roots and from the entries of \<^verbatim>\<open>releases\<close> whose workspace is a
  release root (lines 303 to 308).
\<close>

definition getRelevancy :: "versionFile \<Rightarrow> releases \<Rightarrow> relevancy option" where
  "getRelevancy vf rel =
     relevancyLoop (project vf) rel
       \<lparr>relevantWorkspaces = releaseRoots vf, relevantReleases = rel |` releaseRoots vf\<rparr>"

text \<open>
  The same loop with a budget of passes: it gives \<open>None\<close> when the budget is used up before
  the \<^verbatim>\<open>break\<close>. It measures how many passes the loop makes.
\<close>

fun relevancyLoop_bounded :: "nat \<Rightarrow> project \<Rightarrow> releases \<Rightarrow> relevancy \<Rightarrow> relevancy option" where
  "relevancyLoop_bounded 0 p rel s = None"
| "relevancyLoop_bounded (Suc n) p rel s =
     (case relevancyIteration p rel s of
        (s', hasNewDependents) \<Rightarrow> if \<not> hasNewDependents then Some s' else relevancyLoop_bounded n p rel s')"

definition getRelevancy_bounded :: "nat \<Rightarrow> versionFile \<Rightarrow> releases \<Rightarrow> relevancy option" where
  "getRelevancy_bounded n vf rel =
     relevancyLoop_bounded n (project vf) rel
       \<lparr>relevantWorkspaces = releaseRoots vf, relevantReleases = rel |` releaseRoots vf\<rparr>"

text \<open>
  The reference the result is compared with: the workspaces that are release roots or are
  reached from one through released workspaces. A workspace of the project is implicated
  by a relevant workspace it depends on when that workspace has a decision other than
  \<^verbatim>\<open>DECLINE\<close>.
\<close>

inductive_set relevant :: "project \<Rightarrow> releases \<Rightarrow> workspace set \<Rightarrow> workspace set"
  for p :: project and rel :: releases and roots :: "workspace set" where
  relevant_root: "w \<in> roots \<Longrightarrow> w \<in> relevant p rel roots"
| relevant_dependent:
    "v \<in> relevant p rel roots \<Longrightarrow> rel v = Some d \<Longrightarrow> d \<noteq> DECLINE \<Longrightarrow>
     w \<in> set (workspaces p) \<Longrightarrow> v \<in> set (dependencies p w) \<Longrightarrow> w \<in> relevant p rel roots"

text \<open>
  \<^verbatim>\<open>setWorkspaceRelease(workspace, decision)\<close> (lines 350 to 365). \<open>current\<close> is the
  form's state \<^verbatim>\<open>releases\<close>; the result is the state passed to \<^verbatim>\<open>setReleases\<close>.
\<close>

definition setWorkspaceRelease :: "versionFile \<Rightarrow> releases \<Rightarrow> workspace \<Rightarrow> decision \<Rightarrow> releases option" where
  "setWorkspaceRelease vf current w decision =
     (let copy = (if decision \<noteq> UNDECIDED then current(w \<mapsto> decision) else current(w := None))
      in map_option relevantReleases (getRelevancy vf copy))"

section \<open>Commands and their collaborators\<close>

text \<open>
  A command run is observed through the calls it makes to its collaborators, in order.
  \<^verbatim>\<open>report.reportWarning\<close> and the other report methods append a message to the
  \<^verbatim>\<open>StreamReport\<close>.
\<close>

datatype error = WorkspaceRequiredError | UsageError string | Thrown string

datatype message = ReportWarning string | ReportError string | ReportInfo string
  | ReportSeparator | ReportException error

datatype event =
    RestoreInstallState
  | ResolveVersionFiles "string option"
  | ApplyReleases releases
  | ClearVersionFiles
  | Install
  | Report message
  | CheckRequirements
  | OpenVersionFile
  | RenderForm versionFile
  | SaveAll versionFile

text \<open>
  What the collaborators answer in one run. \<open>workspace\<close> is the workspace that
  \<^verbatim>\<open>Project.find\<close> returns (\<open>None\<close> for \<^verbatim>\<open>null\<close>). A call that throws answers
  with its error. \<open>applyReleases\<close> and \<open>install\<close> are handed the report and may write
  messages to it. \<open>renderForm\<close> answers \<open>None\<close> for \<^verbatim>\<open>undefined\<close>, the aborted form.
\<close>

record env =
  workspace :: "workspace option"
  resolveVersionFiles :: "string option \<Rightarrow> error + releases"
  applyReleases :: "releases \<Rightarrow> message list \<times> error option"
  clearVersionFiles :: "error option"
  install :: "message list \<times> error option"
  checkRequirements :: "error option"
  openVersionFile :: "error + versionFile option"
  renderForm :: "versionFile \<Rightarrow> releases option"
  saveAll :: "versionFile \<Rightarrow> error option"

text \<open>A run: the calls made so far, and the value returned or the error thrown.\<close>

type_synonym 'a run = "event list \<times> (error + 'a)"

definition andThen :: "'a run \<Rightarrow> ('a \<Rightarrow> 'b run) \<Rightarrow> 'b run" where
  "andThen m k =
     (case m of
        (evs, Inl err) \<Rightarrow> (evs, Inl err)
      | (evs, Inr x) \<Rightarrow> (case k x of (evs', r) \<Rightarrow> (evs @ evs', r)))"

definition noop :: "unit run" where
  "noop = ([], Inr ())"

definition call :: "event \<Rightarrow> message list \<times> error option \<Rightarrow> unit run" where
  "call ev answer =
     (case answer of
        (msgs, Some err) \<Rightarrow> (ev # map Report msgs, Inl err)
      | (msgs, None) \<Rightarrow> (ev # map Report msgs, Inr ()))"

section \<open>The apply command\<close>

text \<open>
  The type of \<^verbatim>\<open>this.prerelease\<close>, declared with \<^verbatim>\<open>Option.String\<close> and
  \<^verbatim>\<open>tolerateBoolean: true\<close>: \<^verbatim>\<open>string | boolean | undefined\<close>.
\<close>

datatype prereleaseOption = Absent | Boolean bool | Text string

record applyOptions =
  dryRun :: bool
  prerelease :: prereleaseOption
  recursive :: "bool option"
  json :: bool

text \<open>JavaScript truthiness of \<^verbatim>\<open>this.prerelease\<close>, the test of the outer conditional.\<close>

fun truthy :: "prereleaseOption \<Rightarrow> bool" where
  "truthy Absent = False"
| "truthy (Boolean b) = b"
| "truthy (Text s) = (s \<noteq> '''')"

text \<open>
  Line 63:
  \<^verbatim>\<open>this.prerelease ? (typeof this.prerelease !== 'boolean' ? this.prerelease : 'rc.%n') : null\<close>.
\<close>

definition prereleaseIdentifier :: "prereleaseOption \<Rightarrow> string option" where
  "prereleaseIdentifier p =
     (if truthy p
      then (case p of Text s \<Rightarrow> Some s | _ \<Rightarrow> Some ''rc.%n'')
      else None)"

text \<open>\<^verbatim>\<open>!prerelease\<close> of line 78, on a value of type \<^verbatim>\<open>string | null\<close>.\<close>

fun falsy :: "string option \<Rightarrow> bool" where
  "falsy None = True"
| "falsy (Some s) = (s = '''')"

text \<open>The callback handed to \<^verbatim>\<open>StreamReport.start\<close> (lines 62 to 86).\<close>

definition applyCallback :: "applyOptions \<Rightarrow> env \<Rightarrow> unit run" where
  "applyCallback opts e =
     (let identifier = prereleaseIdentifier (prerelease opts) in
      andThen ([ResolveVersionFiles identifier], resolveVersionFiles e identifier) (\<lambda>allReleases.
        if dom allReleases = {}
        then ([Report (ReportWarning ''The workspace doesn't seem to require a version bump.'')], Inr ())
        else
          andThen (call (ApplyReleases allReleases) (applyReleases e allReleases)) (\<lambda>_.
            if \<not> dryRun opts
            then
              andThen (if falsy identifier then call ClearVersionFiles ([], clearVersionFiles e) else noop) (\<lambda>_.
              andThen ([Report ReportSeparator], Inr ()) (\<lambda>_.
              call Install (install e)))
            else noop)))"

text \<open>
  \<^verbatim>\<open>StreamReport\<close> of \<^verbatim>\<open>@yarnpkg/core\<close>: \<^verbatim>\<open>start\<close> runs the callback, and
  reports an exception the callback throws as an error; \<^verbatim>\<open>exitCode()\<close> is 1 when an
  error was reported and 0 otherwise.
\<close>

fun isError :: "event \<Rightarrow> bool" where
  "isError (Report (ReportError _)) = True"
| "isError (Report (ReportException _)) = True"
| "isError _ = False"

definition exitCode :: "event list \<Rightarrow> int" where
  "exitCode evs = (if list_ex isError evs then 1 else 0)"

definition streamReportStart :: "unit run \<Rightarrow> event list" where
  "streamReportStart r =
     (case r of
        (evs, Inl err) \<Rightarrow> evs @ [Report (ReportException err)]
      | (evs, Inr _) \<Rightarrow> evs)"

text \<open>
  \<^verbatim>\<open>VersionApplyCommand.execute\<close> (lines 43 to 90): the calls made, and the exit code
  returned or the error thrown.
\<close>

definition execute :: "applyOptions \<Rightarrow> env \<Rightarrow> event list \<times> (error + int)" where
  "execute opts e =
     (case workspace e of
        None \<Rightarrow> ([], Inl WorkspaceRequiredError)
      | Some _ \<Rightarrow>
          (let applyReport = streamReportStart (applyCallback opts e)
           in (RestoreInstallState # applyReport, Inr (exitCode applyReport))))"

section \<open>The check command\<close>

text \<open>
  \<^verbatim>\<open>VersionCheckCommand.executeInteractive\<close> (lines 127 to 536), with the form behind
  \<^verbatim>\<open>renderForm\<close>: the calls made, the version file in memory at the end (\<open>None\<close> when
  none was opened), and the value returned (\<open>None\<close> for \<^verbatim>\<open>undefined\<close>) or the error
  thrown. Lines 527 to 531 clear \<^verbatim>\<open>versionFile.releases\<close> and set every entry of
  \<^verbatim>\<open>decisions\<close> in it.
\<close>

definition executeInteractive :: "env \<Rightarrow> event list \<times> versionFile option \<times> (error + int option)" where
  "executeInteractive e =
     (case checkRequirements e of
        Some err \<Rightarrow> ([CheckRequirements], None, Inl err)
      | None \<Rightarrow>
     (case workspace e of
        None \<Rightarrow> ([CheckRequirements], None, Inl WorkspaceRequiredError)
      | Some _ \<Rightarrow>
     (case openVersionFile e of
        Inl err \<Rightarrow> ([CheckRequirements, RestoreInstallState, OpenVersionFile], None, Inl err)
      | Inr None \<Rightarrow> ([CheckRequirements, RestoreInstallState, OpenVersionFile], None, Inr (Some 0))
      | Inr (Some vf) \<Rightarrow>
          if releaseRoots vf = {}
          then ([CheckRequirements, RestoreInstallState, OpenVersionFile], Some vf, Inr (Some 0))
          else if root vf = None
          then ([CheckRequirements, RestoreInstallState, OpenVersionFile], Some vf,
                Inl (UsageError ''This command can only be run on Git repositories''))
          else
            (case renderForm e vf of
               None \<Rightarrow>
                 ([CheckRequirements, RestoreInstallState, OpenVersionFile, RenderForm vf], Some vf,
                  Inr (Some 1))
             | Some decisions \<Rightarrow>
                 (let cleared = vf\<lparr>releases := Map.empty\<rparr>;
                      filled = cleared\<lparr>releases := releases cleared ++ decisions\<rparr>
                  in ([CheckRequirements, RestoreInstallState, OpenVersionFile, RenderForm vf, SaveAll filled],
                      Some filled,
                      (case saveAll e filled of Some err \<Rightarrow> Inl err | None \<Rightarrow> Inr None)))))))"


section \<open>Scenarios\<close>

text \<open>
  The project of the spec's propagation example (8): three workspaces, \<open>B\<close> depends on
  \<open>A\<close> and \<open>C\<close> depends on \<open>B\<close>. Its version file has the single release root \<open>A\<close>.
\<close>

definition chain :: project where
  "chain = \<lparr>workspaces = [''A'', ''B'', ''C''],
            dependencies = (\<lambda>w. if w = ''B'' then [''A''] else if w = ''C'' then [''B''] else [])\<rparr>"

definition chainFile :: versionFile where
  "chainFile = \<lparr>project = chain, root = Some ''/repo'', changedFiles = {''/repo/A/index.ts''},
                releaseRoots = {''A''}, releases = Map.empty\<rparr>"

text \<open>
  Collaborators that never throw and report nothing: \<open>resolveVersionFiles\<close> answers
  \<open>pending\<close>, \<open>openVersionFile\<close> answers \<open>opened\<close>, the form answers \<open>submitted\<close>.
\<close>

definition calm :: "releases \<Rightarrow> versionFile option \<Rightarrow> releases option \<Rightarrow> env" where
  "calm pending opened submitted =
     \<lparr>workspace = Some ''A'',
      resolveVersionFiles = (\<lambda>_. Inr pending),
      applyReleases = (\<lambda>_. ([], None)),
      clearVersionFiles = None,
      install = ([], None),
      checkRequirements = None,
      openVersionFile = Inr opened,
      renderForm = (\<lambda>_. submitted),
      saveAll = (\<lambda>_. None)\<rparr>"

section \<open>Properties of the relevancy loop\<close>

lemma restrict_insert_Some: "rel w = Some r \<Longrightarrow> (rel |` A)(w \<mapsto> r) = rel |` insert w A"
  by (rule ext) (simp add: restrict_map_def)

lemma restrict_insert_None: "rel w = None \<Longrightarrow> rel |` insert w A = rel |` A"
  by (rule ext) (simp add: restrict_map_def)

lemma undecided_set:
  "fst ` set (getUndecidedDependentWorkspaces p rr) =
     {w \<in> set (workspaces p). rr w = None \<and>
        (\<exists>v \<in> set (dependencies p w). \<exists>d. rr v = Some d \<and> d \<noteq> DECLINE)}"
proof -
  have bumped: "(case rr v of None \<Rightarrow> False | Some dec \<Rightarrow> dec \<noteq> DECLINE) =
      (\<exists>d. rr v = Some d \<and> d \<noteq> DECLINE)" for v
    by (cases "rr v") simp_all
  show ?thesis
    unfolding getUndecidedDependentWorkspaces_def bumped by (fastforce simp: image_iff)
qed

lemma undecided_subset: "fst ` set (getUndecidedDependentWorkspaces p rr) \<subseteq> set (workspaces p)"
  by (auto simp: undecided_set)

lemma addDependent_workspaces:
  "fst (addDependent rel (s, h) x) = s' \<Longrightarrow>
     relevantWorkspaces s' = insert (fst x) (relevantWorkspaces s)"
  by (cases x) (auto simp: Let_def split: option.splits if_splits)

lemma addDependent_flag:
  "snd (addDependent rel (s, h) x) = (h \<or> fst x \<notin> relevantWorkspaces s)"
  by (cases x) (auto simp: Let_def split: option.splits if_splits)

lemma addDependent_old:
  "fst x \<in> relevantWorkspaces s \<Longrightarrow> addDependent rel (s, h) x = (s, h)"
  by (cases x) simp

lemma addDependent_consistent:
  "relevantReleases s = rel |` relevantWorkspaces s \<Longrightarrow> fst (addDependent rel (s, h) x) = s' \<Longrightarrow>
     relevantReleases s' = rel |` relevantWorkspaces s'"
  by (cases x) (auto simp: Let_def restrict_insert_Some restrict_insert_None split: option.splits if_splits)

lemma fold_workspaces:
  "foldl (addDependent rel) (s, h) und = (s', h') \<Longrightarrow>
     relevantWorkspaces s' = relevantWorkspaces s \<union> fst ` set und"
proof (induction und arbitrary: s h)
  case Nil
  then show ?case by simp
next
  case (Cons x und)
  obtain s1 h1 where step: "addDependent rel (s, h) x = (s1, h1)" by (cases "addDependent rel (s, h) x")
  have "relevantWorkspaces s1 = insert (fst x) (relevantWorkspaces s)"
    using addDependent_workspaces [of rel s h x s1] step by simp
  moreover have "relevantWorkspaces s' = relevantWorkspaces s1 \<union> fst ` set und"
    using Cons.IH [of s1 h1] Cons.prems step by simp
  ultimately show ?case by auto
qed

lemma fold_flag:
  "foldl (addDependent rel) (s, h) und = (s', h') \<Longrightarrow>
     h' = (h \<or> \<not> fst ` set und \<subseteq> relevantWorkspaces s)"
proof (induction und arbitrary: s h)
  case Nil
  then show ?case by simp
next
  case (Cons x und)
  obtain s1 h1 where step: "addDependent rel (s, h) x = (s1, h1)" by (cases "addDependent rel (s, h) x")
  have w1: "relevantWorkspaces s1 = insert (fst x) (relevantWorkspaces s)"
    using addDependent_workspaces [of rel s h x s1] step by simp
  have f1: "h1 = (h \<or> fst x \<notin> relevantWorkspaces s)"
    using addDependent_flag [of rel s h x] step by simp
  have "h' = (h1 \<or> \<not> fst ` set und \<subseteq> relevantWorkspaces s1)"
    using Cons.IH [of s1 h1] Cons.prems step by simp
  with w1 f1 show ?case by auto
qed

lemma fold_unchanged:
  "fst ` set und \<subseteq> relevantWorkspaces s \<Longrightarrow> foldl (addDependent rel) (s, h) und = (s, h)"
  by (induction und) (simp_all add: addDependent_old)

lemma fold_consistent:
  "foldl (addDependent rel) (s, h) und = (s', h') \<Longrightarrow>
   relevantReleases s = rel |` relevantWorkspaces s \<Longrightarrow>
     relevantReleases s' = rel |` relevantWorkspaces s'"
proof (induction und arbitrary: s h)
  case Nil
  then show ?case by simp
next
  case (Cons x und)
  obtain s1 h1 where step: "addDependent rel (s, h) x = (s1, h1)" by (cases "addDependent rel (s, h) x")
  have "relevantReleases s1 = rel |` relevantWorkspaces s1"
    using addDependent_consistent [of s rel h x s1] Cons.prems(2) step by simp
  then show ?case
    using Cons.IH [of s1 h1] Cons.prems(1) step by simp
qed

lemma iteration_as_fold:
  "relevancyIteration p rel s =
     foldl (addDependent rel) (s, False) (getUndecidedDependentWorkspaces p (relevantReleases s))"
  by (simp add: relevancyIteration_def Let_def)

lemma iteration_workspaces:
  "relevancyIteration p rel s = (s', h) \<Longrightarrow>
     relevantWorkspaces s' =
       relevantWorkspaces s \<union> fst ` set (getUndecidedDependentWorkspaces p (relevantReleases s))"
  unfolding iteration_as_fold by (rule fold_workspaces)

lemma iteration_flag:
  "relevancyIteration p rel s = (s', h) \<Longrightarrow>
     h = (\<not> fst ` set (getUndecidedDependentWorkspaces p (relevantReleases s)) \<subseteq> relevantWorkspaces s)"
  unfolding iteration_as_fold using fold_flag [of rel s False _ s' h] by simp

lemma iteration_exit:
  "relevancyIteration p rel s = (s', False) \<Longrightarrow> s' = s"
proof -
  assume a: "relevancyIteration p rel s = (s', False)"
  then have "fst ` set (getUndecidedDependentWorkspaces p (relevantReleases s)) \<subseteq> relevantWorkspaces s"
    using iteration_flag [of p rel s s' False] by simp
  then have "relevancyIteration p rel s = (s, False)"
    unfolding iteration_as_fold by (rule fold_unchanged)
  with a show ?thesis by simp
qed

lemma iteration_grows:
  assumes "relevancyIteration p rel s = (s', True)"
  shows "relevantWorkspaces s \<subset> relevantWorkspaces s'"
    and "relevantWorkspaces s' \<subseteq> relevantWorkspaces s \<union> set (workspaces p)"
    and "card (set (workspaces p) - relevantWorkspaces s') < card (set (workspaces p) - relevantWorkspaces s)"
proof -
  let ?U = "fst ` set (getUndecidedDependentWorkspaces p (relevantReleases s))"
  have ws: "relevantWorkspaces s' = relevantWorkspaces s \<union> ?U"
    using assms by (rule iteration_workspaces)
  have new: "\<not> ?U \<subseteq> relevantWorkspaces s"
    using iteration_flag [OF assms] by simp
  have sub: "?U \<subseteq> set (workspaces p)" by (rule undecided_subset)
  show "relevantWorkspaces s \<subset> relevantWorkspaces s'" using ws new by auto
  show "relevantWorkspaces s' \<subseteq> relevantWorkspaces s \<union> set (workspaces p)" using ws sub by auto
  have "set (workspaces p) - relevantWorkspaces s' \<subset> set (workspaces p) - relevantWorkspaces s"
    using ws new sub by auto
  then show "card (set (workspaces p) - relevantWorkspaces s') < card (set (workspaces p) - relevantWorkspaces s)"
    by (intro psubset_card_mono) auto
qed

lemma iteration_consistent:
  "relevancyIteration p rel s = (s', h) \<Longrightarrow> relevantReleases s = rel |` relevantWorkspaces s \<Longrightarrow>
     relevantReleases s' = rel |` relevantWorkspaces s'"
  unfolding iteration_as_fold by (rule fold_consistent)

lemma relevancyLoop_bounded_eq:
  "card (set (workspaces p) - relevantWorkspaces s) < n \<Longrightarrow>
     relevancyLoop_bounded n p rel s = relevancyLoop p rel s \<and> relevancyLoop p rel s \<noteq> None"
proof (induction n arbitrary: s)
  case 0
  then show ?case by simp
next
  case (Suc n)
  obtain s' h where it: "relevancyIteration p rel s = (s', h)" by (cases "relevancyIteration p rel s")
  show ?case
  proof (cases h)
    case False
    with it show ?thesis by (subst (1 2) relevancyLoop.simps) simp
  next
    case True
    with it have "card (set (workspaces p) - relevantWorkspaces s') < card (set (workspaces p) - relevantWorkspaces s)"
      using iteration_grows(3) by simp
    with Suc.prems have "card (set (workspaces p) - relevantWorkspaces s') < n" by simp
    from Suc.IH [OF this] it True show ?thesis by (subst (1 2) relevancyLoop.simps) simp
  qed
qed

lemma relevancyLoop_returns: "\<exists>r. relevancyLoop p rel s = Some r"
  using relevancyLoop_bounded_eq [of p s "Suc (card (set (workspaces p) - relevantWorkspaces s))" rel]
  by auto


lemma undecided_sound:
  assumes cons: "relevantReleases s = rel |` relevantWorkspaces s"
    and sound: "relevantWorkspaces s \<subseteq> relevant p rel roots"
  shows "fst ` set (getUndecidedDependentWorkspaces p (relevantReleases s)) \<subseteq> relevant p rel roots"
proof
  fix w
  assume "w \<in> fst ` set (getUndecidedDependentWorkspaces p (relevantReleases s))"
  then obtain v d where w: "w \<in> set (workspaces p)" and v: "v \<in> set (dependencies p w)"
    and d: "relevantReleases s v = Some d" "d \<noteq> DECLINE"
    unfolding undecided_set by blast
  from d(1) cons have "v \<in> relevantWorkspaces s" "rel v = Some d"
    by (auto simp: restrict_map_def split: if_splits)
  with sound have "v \<in> relevant p rel roots" by blast
  then show "w \<in> relevant p rel roots"
    using \<open>rel v = Some d\<close> d(2) w v by (rule relevant_dependent)
qed

lemma closed_complete:
  assumes cons: "relevantReleases s = rel |` relevantWorkspaces s"
    and roots: "roots \<subseteq> relevantWorkspaces s"
    and closed: "fst ` set (getUndecidedDependentWorkspaces p (relevantReleases s)) \<subseteq> relevantWorkspaces s"
  shows "relevant p rel roots \<subseteq> relevantWorkspaces s"
proof
  fix w
  assume "w \<in> relevant p rel roots"
  then show "w \<in> relevantWorkspaces s"
  proof (induction rule: relevant.induct)
    case (relevant_root w)
    with roots show ?case by blast
  next
    case (relevant_dependent v d w)
    have bumped: "relevantReleases s v = Some d"
      using relevant_dependent.IH relevant_dependent.hyps(2) cons by (simp add: restrict_map_def)
    show ?case
    proof (cases "relevantReleases s w")
      case None
      then have "w \<in> fst ` set (getUndecidedDependentWorkspaces p (relevantReleases s))"
        unfolding undecided_set using relevant_dependent.hyps bumped by blast
      with closed show ?thesis by blast
    next
      case (Some r)
      with cons show ?thesis by (auto simp: restrict_map_def split: if_splits)
    qed
  qed
qed

lemma relevancyLoop_result_aux:
  "card (set (workspaces p) - relevantWorkspaces s) < n \<Longrightarrow>
   relevantReleases s = rel |` relevantWorkspaces s \<Longrightarrow>
   roots \<subseteq> relevantWorkspaces s \<Longrightarrow>
   relevantWorkspaces s \<subseteq> relevant p rel roots \<Longrightarrow>
     \<exists>r. relevancyLoop p rel s = Some r \<and> relevantWorkspaces r = relevant p rel roots
       \<and> relevantReleases r = rel |` relevantWorkspaces r"
proof (induction n arbitrary: s)
  case 0
  then show ?case by simp
next
  case (Suc n)
  let ?U = "fst ` set (getUndecidedDependentWorkspaces p (relevantReleases s))"
  obtain s' h where it: "relevancyIteration p rel s = (s', h)" by (cases "relevancyIteration p rel s")
  have ws: "relevantWorkspaces s' = relevantWorkspaces s \<union> ?U"
    using it by (rule iteration_workspaces)
  show ?case
  proof (cases h)
    case False
    with it have same: "s' = s" using iteration_exit by simp
    have "?U \<subseteq> relevantWorkspaces s" using iteration_flag [OF it] False by simp
    then have "relevant p rel roots \<subseteq> relevantWorkspaces s"
      using closed_complete [OF Suc.prems(2) Suc.prems(3)] by simp
    with Suc.prems(4) have "relevantWorkspaces s = relevant p rel roots" by blast
    moreover have "relevancyLoop p rel s = Some s"
      using it False same by (subst relevancyLoop.simps) simp
    ultimately show ?thesis using Suc.prems(2) by simp
  next
    case True
    with it have "card (set (workspaces p) - relevantWorkspaces s') < card (set (workspaces p) - relevantWorkspaces s)"
      using iteration_grows(3) by simp
    with Suc.prems(1) have m: "card (set (workspaces p) - relevantWorkspaces s') < n" by simp
    have c: "relevantReleases s' = rel |` relevantWorkspaces s'"
      using it Suc.prems(2) by (rule iteration_consistent)
    have r: "roots \<subseteq> relevantWorkspaces s'" using ws Suc.prems(3) by blast
    have "?U \<subseteq> relevant p rel roots" using Suc.prems(2) Suc.prems(4) by (rule undecided_sound)
    with ws Suc.prems(4) have sd: "relevantWorkspaces s' \<subseteq> relevant p rel roots" by blast
    have "relevancyLoop p rel s = relevancyLoop p rel s'"
      using it True by (subst relevancyLoop.simps) simp
    with Suc.IH [OF m c r sd] show ?thesis by simp
  qed
qed

lemma getRelevancy_result:
  "\<exists>r. getRelevancy vf rel = Some r
     \<and> relevantWorkspaces r = relevant (project vf) rel (releaseRoots vf)
     \<and> relevantReleases r = rel |` relevantWorkspaces r"
  unfolding getRelevancy_def
  by (rule relevancyLoop_result_aux [where n = "Suc (card (set (workspaces (project vf)) - releaseRoots vf))"])
     (auto intro: relevant_root)

section \<open>Relevancy: the claims\<close>

lemmas relevancy_eval =
  getRelevancy_def getRelevancy_bounded_def relevancyLoop.simps relevancyIteration_def
  getUndecidedDependentWorkspaces_def restrict_map_def chain_def chainFile_def

lemma chain_full:
  "map_option relevantWorkspaces (getRelevancy chainFile [''A'' \<mapsto> MINOR, ''B'' \<mapsto> PATCH])
     = Some {''A'', ''B'', ''C''}"
  by (auto simp: relevancy_eval)

text \<open>
  C1. Relevancy pruning. For every version file and every decision map, \<open>getRelevancy\<close>
  returns, and its \<open>relevantWorkspaces\<close> are exactly the release roots plus the workspaces
  reached from them through released workspaces; \<open>relevantReleases\<close> keeps the decisions
  of those workspaces and drops every other one. A relevant workspace that is not a release
  root depends on a relevant workspace whose decision is kept and is not a decline; so a
  workspace none of whose dependencies has a decision any more is relevant only if it is a
  release root, and when no release root has a decision other than a decline, the relevant
  workspaces are the release roots alone.
\<close>

theorem getRelevancy_prunes:
  "\<exists>r. getRelevancy vf rel = Some r
     \<and> relevantWorkspaces r = relevant (project vf) rel (releaseRoots vf)
     \<and> relevantReleases r = rel |` relevant (project vf) rel (releaseRoots vf)
     \<and> (\<forall>w. w \<notin> relevant (project vf) rel (releaseRoots vf) \<longrightarrow> relevantReleases r w = None)
     \<and> (\<forall>w. w \<in> relevantWorkspaces r \<and> w \<notin> releaseRoots vf \<longrightarrow>
           (\<exists>v d. v \<in> set (dependencies (project vf) w) \<and> v \<in> relevantWorkspaces r
              \<and> rel v = Some d \<and> d \<noteq> DECLINE))
     \<and> (\<forall>w. (\<forall>v \<in> set (dependencies (project vf) w). rel v = None) \<longrightarrow>
           (w \<in> relevantWorkspaces r) = (w \<in> releaseRoots vf))
     \<and> ((\<forall>a \<in> releaseRoots vf. rel a = None \<or> rel a = Some DECLINE) \<longrightarrow>
           relevantWorkspaces r = releaseRoots vf
           \<and> (\<forall>w. w \<notin> releaseRoots vf \<longrightarrow> relevantReleases r w = None))"
proof -
  let ?R = "relevant (project vf) rel (releaseRoots vf)"
  obtain r where r: "getRelevancy vf rel = Some r" "relevantWorkspaces r = ?R"
      "relevantReleases r = rel |` relevantWorkspaces r"
    using getRelevancy_result [of vf rel] by blast
  have trigger: "\<exists>v d. v \<in> set (dependencies (project vf) w) \<and> v \<in> ?R \<and> rel v = Some d \<and> d \<noteq> DECLINE"
    if "w \<in> ?R" "w \<notin> releaseRoots vf" for w
    using that by (cases rule: relevant.cases) auto
  have dropped: "\<forall>w. w \<notin> ?R \<longrightarrow> relevantReleases r w = None"
    using r(2,3) by (simp add: restrict_map_def)
  have nonroot: "\<forall>w. w \<in> relevantWorkspaces r \<and> w \<notin> releaseRoots vf \<longrightarrow>
      (\<exists>v d. v \<in> set (dependencies (project vf) w) \<and> v \<in> relevantWorkspaces r
         \<and> rel v = Some d \<and> d \<noteq> DECLINE)"
    using trigger r(2) by simp
  have forgotten: "\<forall>w. (\<forall>v \<in> set (dependencies (project vf) w). rel v = None) \<longrightarrow>
      (w \<in> relevantWorkspaces r) = (w \<in> releaseRoots vf)"
  proof (intro allI impI)
    fix w
    assume none: "\<forall>v \<in> set (dependencies (project vf) w). rel v = None"
    show "(w \<in> relevantWorkspaces r) = (w \<in> releaseRoots vf)"
    proof
      assume "w \<in> relevantWorkspaces r"
      then have "w \<in> ?R" using r(2) by simp
      then show "w \<in> releaseRoots vf" using trigger [of w] none by fastforce
    next
      assume "w \<in> releaseRoots vf"
      then show "w \<in> relevantWorkspaces r" using r(2) by (simp add: relevant_root)
    qed
  qed
  have unreleased: "(\<forall>a \<in> releaseRoots vf. rel a = None \<or> rel a = Some DECLINE) \<longrightarrow>
      relevantWorkspaces r = releaseRoots vf
      \<and> (\<forall>w. w \<notin> releaseRoots vf \<longrightarrow> relevantReleases r w = None)"
  proof
    assume un: "\<forall>a \<in> releaseRoots vf. rel a = None \<or> rel a = Some DECLINE"
    have "w \<in> releaseRoots vf" if "w \<in> ?R" for w
      using that
    proof (induction rule: relevant.induct)
      case (relevant_root w)
      then show ?case .
    next
      case (relevant_dependent v d w)
      with un show ?case by auto
    qed
    then have "?R = releaseRoots vf" by (auto intro: relevant_root)
    with r(2) dropped show "relevantWorkspaces r = releaseRoots vf
      \<and> (\<forall>w. w \<notin> releaseRoots vf \<longrightarrow> relevantReleases r w = None)" by simp
  qed
  from r dropped nonroot forgotten unreleased show ?thesis by simp
qed

theorem getRelevancy_prunes_witness:
  "relevant chain [''A'' \<mapsto> MINOR, ''B'' \<mapsto> PATCH] {''A''} = {''A'', ''B'', ''C''}
   \<and> relevant chain [''B'' \<mapsto> PATCH] {''A''} = {''A''}
   \<and> (\<exists>r. getRelevancy chainFile [''B'' \<mapsto> PATCH] = Some r
        \<and> relevantWorkspaces r = {''A''} \<and> ''B'' \<notin> relevantWorkspaces r
        \<and> relevantReleases r ''B'' = None)"
proof -
  have p: "project chainFile = chain" "releaseRoots chainFile = {''A''}" by (simp_all add: chainFile_def)
  obtain r1 where r1: "getRelevancy chainFile [''A'' \<mapsto> MINOR, ''B'' \<mapsto> PATCH] = Some r1"
      "relevantWorkspaces r1 = relevant (project chainFile) [''A'' \<mapsto> MINOR, ''B'' \<mapsto> PATCH] (releaseRoots chainFile)"
    using getRelevancy_prunes [of chainFile "[''A'' \<mapsto> MINOR, ''B'' \<mapsto> PATCH]"] by blast
  obtain r2 where r2: "getRelevancy chainFile [''B'' \<mapsto> PATCH] = Some r2"
      "relevantWorkspaces r2 = relevant (project chainFile) [''B'' \<mapsto> PATCH] (releaseRoots chainFile)"
      "(\<forall>a \<in> releaseRoots chainFile. [''B'' \<mapsto> PATCH] a = None \<or> [''B'' \<mapsto> PATCH] a = Some DECLINE) \<longrightarrow>
         relevantWorkspaces r2 = releaseRoots chainFile
         \<and> (\<forall>w. w \<notin> releaseRoots chainFile \<longrightarrow> relevantReleases r2 w = None)"
    using getRelevancy_prunes [of chainFile "[''B'' \<mapsto> PATCH]"] by blast
  have w1: "relevantWorkspaces r1 = {''A'', ''B'', ''C''}" using chain_full r1(1) by simp
  have w2: "relevantWorkspaces r2 = {''A''}" "relevantReleases r2 ''B'' = None"
    using r2(3) p by simp_all
  from r1(2) w1 p have a: "relevant chain [''A'' \<mapsto> MINOR, ''B'' \<mapsto> PATCH] {''A''} = {''A'', ''B'', ''C''}" by simp
  from r2(2) w2 p have b: "relevant chain [''B'' \<mapsto> PATCH] {''A''} = {''A''}" by simp
  from a b r2(1) w2 show ?thesis by simp
qed

text \<open>
  C2. The loop of \<open>getRelevancy\<close> terminates, for every decision map and every project and
  from every state. A pass either adds a workspace of the project that was not relevant
  before and goes round again, or adds nothing and leaves the loop. The loop is left within
  one pass more than there are workspaces of the project outside the release roots; when
  some release root is a workspace of the project, within as many passes as the project has
  workspaces.
\<close>

theorem getRelevancy_terminates:
  "(\<exists>r. getRelevancy vf rel = Some r)
   \<and> (\<exists>r. relevancyLoop p rel s = Some r)
   \<and> (case relevancyIteration p rel s of
        (s', hasNewDependents) \<Rightarrow>
          if hasNewDependents
          then relevantWorkspaces s \<subset> relevantWorkspaces s'
             \<and> relevantWorkspaces s' \<subseteq> relevantWorkspaces s \<union> set (workspaces p)
             \<and> relevancyLoop p rel s = relevancyLoop p rel s'
          else s' = s \<and> relevancyLoop p rel s = Some s)
   \<and> getRelevancy_bounded (Suc (card (set (workspaces (project vf)) - releaseRoots vf))) vf rel
       = getRelevancy vf rel
   \<and> (releaseRoots vf \<inter> set (workspaces (project vf)) \<noteq> {} \<longrightarrow>
        getRelevancy_bounded (length (workspaces (project vf))) vf rel = getRelevancy vf rel)"
proof -
  let ?W = "set (workspaces (project vf))"
  let ?init = "\<lparr>relevantWorkspaces = releaseRoots vf, relevantReleases = rel |` releaseRoots vf\<rparr>"
  have returns: "\<exists>r. getRelevancy vf rel = Some r"
    unfolding getRelevancy_def by (rule relevancyLoop_returns)
  have pass: "case relevancyIteration p rel s of
        (s', hasNewDependents) \<Rightarrow>
          if hasNewDependents
          then relevantWorkspaces s \<subset> relevantWorkspaces s'
             \<and> relevantWorkspaces s' \<subseteq> relevantWorkspaces s \<union> set (workspaces p)
             \<and> relevancyLoop p rel s = relevancyLoop p rel s'
          else s' = s \<and> relevancyLoop p rel s = Some s"
  proof -
    obtain s' h where it: "relevancyIteration p rel s = (s', h)" by (cases "relevancyIteration p rel s")
    show ?thesis
    proof (cases h)
      case True
      have "relevancyLoop p rel s = relevancyLoop p rel s'"
        using it True by (subst relevancyLoop.simps) simp
      then show ?thesis using it True iteration_grows(1,2) [of p rel s s'] by simp
    next
      case False
      have "s' = s" using it False iteration_exit by simp
      moreover have "relevancyLoop p rel s = Some s'"
        using it False by (subst relevancyLoop.simps) simp
      ultimately show ?thesis using it False by simp
    qed
  qed
  have budget: "getRelevancy_bounded n vf rel = getRelevancy vf rel"
    if "card (?W - releaseRoots vf) < n" for n
    unfolding getRelevancy_bounded_def getRelevancy_def
    using relevancyLoop_bounded_eq [of "project vf" ?init n rel] that by simp
  have general: "getRelevancy_bounded (Suc (card (?W - releaseRoots vf))) vf rel = getRelevancy vf rel"
    by (rule budget) simp
  have rooted: "getRelevancy_bounded (length (workspaces (project vf))) vf rel = getRelevancy vf rel"
    if "releaseRoots vf \<inter> ?W \<noteq> {}"
  proof (rule budget)
    have "?W - releaseRoots vf \<subset> ?W" using that by blast
    then have "card (?W - releaseRoots vf) < card ?W" by (intro psubset_card_mono) auto
    also have "card ?W \<le> length (workspaces (project vf))" by (rule card_length)
    finally show "card (?W - releaseRoots vf) < length (workspaces (project vf))" .
  qed
  from returns relevancyLoop_returns [of p rel s] pass general rooted show ?thesis by blast
qed

theorem getRelevancy_terminates_witness:
  "releaseRoots chainFile \<inter> set (workspaces (project chainFile)) \<noteq> {}
   \<and> length (workspaces (project chainFile)) = 3
   \<and> getRelevancy_bounded 3 chainFile [''A'' \<mapsto> MINOR, ''B'' \<mapsto> PATCH]
       = getRelevancy chainFile [''A'' \<mapsto> MINOR, ''B'' \<mapsto> PATCH]
   \<and> map_option relevantWorkspaces (getRelevancy_bounded 3 chainFile [''A'' \<mapsto> MINOR, ''B'' \<mapsto> PATCH])
       = Some {''A'', ''B'', ''C''}
   \<and> getRelevancy_bounded 2 chainFile [''A'' \<mapsto> MINOR, ''B'' \<mapsto> PATCH] = None"
proof -
  have h: "releaseRoots chainFile \<inter> set (workspaces (project chainFile)) \<noteq> {}"
      "length (workspaces (project chainFile)) = 3"
    by (simp_all add: chainFile_def chain_def)
  have eq: "getRelevancy_bounded 3 chainFile [''A'' \<mapsto> MINOR, ''B'' \<mapsto> PATCH]
      = getRelevancy chainFile [''A'' \<mapsto> MINOR, ''B'' \<mapsto> PATCH]"
    using getRelevancy_terminates [of chainFile "[''A'' \<mapsto> MINOR, ''B'' \<mapsto> PATCH]"] h by simp
  have short: "getRelevancy_bounded 2 chainFile [''A'' \<mapsto> MINOR, ''B'' \<mapsto> PATCH] = None"
    by (simp add: relevancy_eval numeral_2_eq_2)
  from h eq chain_full short show ?thesis by simp
qed

text \<open>
  C9. For every decision map, the \<open>relevantReleases\<close> that \<open>getRelevancy\<close> returns are
  the decision map restricted to the returned \<open>relevantWorkspaces\<close>: an entry that is kept
  has the decision it had, a workspace with no decision gets none, every relevant workspace
  has the decision it had or none, and every release root is relevant.
\<close>

theorem getRelevancy_restricts:
  "\<exists>r. getRelevancy vf rel = Some r
     \<and> relevantReleases r = rel |` relevantWorkspaces r
     \<and> (\<forall>w d. relevantReleases r w = Some d \<longrightarrow> rel w = Some d \<and> w \<in> relevantWorkspaces r)
     \<and> (\<forall>w. rel w = None \<longrightarrow> relevantReleases r w = None)
     \<and> (\<forall>w \<in> relevantWorkspaces r. relevantReleases r w = rel w)
     \<and> releaseRoots vf \<subseteq> relevantWorkspaces r"
proof -
  obtain r where r: "getRelevancy vf rel = Some r"
      "relevantWorkspaces r = relevant (project vf) rel (releaseRoots vf)"
      "relevantReleases r = rel |` relevantWorkspaces r"
    using getRelevancy_result [of vf rel] by blast
  have kept: "\<forall>w d. relevantReleases r w = Some d \<longrightarrow> rel w = Some d \<and> w \<in> relevantWorkspaces r"
    using r(3) by (auto simp: restrict_map_def split: if_splits)
  have absent: "\<forall>w. rel w = None \<longrightarrow> relevantReleases r w = None"
    using r(3) by (simp add: restrict_map_def)
  have inside: "\<forall>w \<in> relevantWorkspaces r. relevantReleases r w = rel w"
    using r(3) by simp
  have roots: "releaseRoots vf \<subseteq> relevantWorkspaces r"
    using r(2) by (auto intro: relevant_root)
  from r(1,3) kept absent inside roots show ?thesis by blast
qed

theorem getRelevancy_restricts_witness:
  "\<exists>r. getRelevancy chainFile [''A'' \<mapsto> MINOR, ''B'' \<mapsto> PATCH] = Some r
     \<and> relevantWorkspaces r = {''A'', ''B'', ''C''}
     \<and> relevantReleases r ''A'' = Some MINOR
     \<and> relevantReleases r ''B'' = Some PATCH
     \<and> relevantReleases r ''C'' = None
     \<and> ''A'' \<in> relevantWorkspaces r"
proof -
  obtain r where r: "getRelevancy chainFile [''A'' \<mapsto> MINOR, ''B'' \<mapsto> PATCH] = Some r"
      "relevantReleases r = [''A'' \<mapsto> MINOR, ''B'' \<mapsto> PATCH] |` relevantWorkspaces r"
    using getRelevancy_restricts [of chainFile "[''A'' \<mapsto> MINOR, ''B'' \<mapsto> PATCH]"] by blast
  have w: "relevantWorkspaces r = {''A'', ''B'', ''C''}" using chain_full r(1) by simp
  from r w show ?thesis by (simp add: restrict_map_def)
qed

text \<open>
  C8. The form's decision map never holds the sentinel. For every workspace and every
  decision, \<open>setWorkspaceRelease\<close> returns a map in which the workspace itself is not
  \<open>UNDECIDED\<close> (selecting \<open>UNDECIDED\<close> removes its entry), and in which an entry is
  \<open>UNDECIDED\<close> only if it already was in the map before; so a map free of \<open>UNDECIDED\<close>
  stays free of it.
\<close>

theorem setWorkspaceRelease_no_UNDECIDED:
  "\<exists>updated. setWorkspaceRelease vf current w decision = Some updated
     \<and> updated w \<noteq> Some UNDECIDED
     \<and> (decision = UNDECIDED \<longrightarrow> updated w = None)
     \<and> (\<forall>x. updated x = Some UNDECIDED \<longrightarrow> x \<noteq> w \<and> current x = Some UNDECIDED)
     \<and> ((\<forall>x. current x \<noteq> Some UNDECIDED) \<longrightarrow> (\<forall>x. updated x \<noteq> Some UNDECIDED))"
proof -
  define copy where
    "copy = (if decision \<noteq> UNDECIDED then current(w \<mapsto> decision) else current(w := None))"
  obtain r where r: "getRelevancy vf copy = Some r" "relevantReleases r = copy |` relevantWorkspaces r"
    using getRelevancy_result [of vf copy] by blast
  have res: "setWorkspaceRelease vf current w decision = Some (relevantReleases r)"
    using r(1) by (simp add: setWorkspaceRelease_def copy_def)
  have sub: "relevantReleases r x = Some d \<Longrightarrow> copy x = Some d" for x d
    using r(2) by (auto simp: restrict_map_def split: if_splits)
  have self: "relevantReleases r w \<noteq> Some UNDECIDED"
    using sub [of w UNDECIDED] by (auto simp: copy_def split: if_splits)
  have removed: "decision = UNDECIDED \<longrightarrow> relevantReleases r w = None"
  proof
    assume "decision = UNDECIDED"
    then have "copy w = None" by (simp add: copy_def)
    then show "relevantReleases r w = None" using sub [of w] by (cases "relevantReleases r w") auto
  qed
  have old: "\<forall>x. relevantReleases r x = Some UNDECIDED \<longrightarrow> x \<noteq> w \<and> current x = Some UNDECIDED"
  proof (intro allI impI)
    fix x
    assume u: "relevantReleases r x = Some UNDECIDED"
    then have "x \<noteq> w" using self by auto
    moreover have "copy x = Some UNDECIDED" using u by (rule sub)
    ultimately show "x \<noteq> w \<and> current x = Some UNDECIDED" by (auto simp: copy_def split: if_splits)
  qed
  from old have inv: "(\<forall>x. current x \<noteq> Some UNDECIDED) \<longrightarrow> (\<forall>x. relevantReleases r x \<noteq> Some UNDECIDED)"
    by blast
  from res self removed old inv show ?thesis by blast
qed

theorem setWorkspaceRelease_no_UNDECIDED_witness:
  "(\<exists>updated. setWorkspaceRelease chainFile [''A'' \<mapsto> MINOR, ''B'' \<mapsto> PATCH] ''B'' UNDECIDED = Some updated
      \<and> updated ''B'' = None \<and> updated ''B'' \<noteq> Some UNDECIDED)
   \<and> map_option (\<lambda>m. (m ''A'', m ''B'', m ''C''))
       (setWorkspaceRelease chainFile [''A'' \<mapsto> MINOR, ''B'' \<mapsto> PATCH] ''B'' UNDECIDED)
       = Some (Some MINOR, None, None)"
proof -
  have ev: "map_option (\<lambda>m. (m ''A'', m ''B'', m ''C''))
       (setWorkspaceRelease chainFile [''A'' \<mapsto> MINOR, ''B'' \<mapsto> PATCH] ''B'' UNDECIDED)
       = Some (Some MINOR, None, None)"
    by (simp add: setWorkspaceRelease_def relevancy_eval)
  from setWorkspaceRelease_no_UNDECIDED [of chainFile "[''A'' \<mapsto> MINOR, ''B'' \<mapsto> PATCH]" "''B''" UNDECIDED] ev
  show ?thesis by auto
qed

section \<open>The apply command: the claims\<close>

lemma call_events: "fst (call ev answer) = ev # map Report (fst answer)"
  by (cases answer) (auto simp: call_def split: option.splits)

lemma andThen_Inl: "andThen (evs, Inl err) k = (evs, Inl err)"
  by (simp add: andThen_def)

lemma andThen_Inr: "andThen (evs, Inr x) k = (evs @ fst (k x), snd (k x))"
  by (simp add: andThen_def split: prod.splits)

lemma andThen_call:
  "andThen (call ev answer) k =
     (case snd answer of
        Some err \<Rightarrow> (ev # map Report (fst answer), Inl err)
      | None \<Rightarrow> (ev # map Report (fst answer) @ fst (k ()), snd (k ())))"
  by (cases answer) (auto simp: call_def andThen_def split: option.splits prod.splits)

lemma falsy_identifier: "falsy (prereleaseIdentifier p) = (prereleaseIdentifier p = None)"
  by (cases p) (auto simp: prereleaseIdentifier_def)

lemma callback_clears:
  "(ClearVersionFiles \<in> set (fst (applyCallback opts e))) =
     (\<not> dryRun opts \<and> prereleaseIdentifier (prerelease opts) = None
      \<and> (\<exists>allReleases. resolveVersionFiles e None = Inr allReleases \<and> dom allReleases \<noteq> {}
            \<and> snd (applyReleases e allReleases) = None))"
proof (cases "resolveVersionFiles e (prereleaseIdentifier (prerelease opts))")
  case (Inl err)
  then show ?thesis
    by (auto simp: applyCallback_def Let_def andThen_Inl)
next
  case (Inr allReleases)
  show ?thesis
  proof (cases "dom allReleases = {}")
    case True
    with Inr show ?thesis
      by (auto simp: applyCallback_def Let_def andThen_Inr)
  next
    case False
    show ?thesis
    proof (cases "snd (applyReleases e allReleases)")
      case (Some err)
      with Inr False show ?thesis
        by (auto simp: applyCallback_def Let_def andThen_Inr andThen_call)
    next
      case None
      with Inr False show ?thesis
        by (auto simp: applyCallback_def Let_def andThen_Inr andThen_call andThen_Inl noop_def
              falsy_identifier call_events split: option.splits)
    qed
  qed
qed

lemma execute_events:
  "workspace e = Some ws \<Longrightarrow>
     set (fst (execute opts e)) \<inter> {ClearVersionFiles} = set (fst (applyCallback opts e)) \<inter> {ClearVersionFiles}"
  by (cases "applyCallback opts e"; cases "snd (applyCallback opts e)")
     (auto simp: execute_def Let_def streamReportStart_def)

text \<open>
  C3. In the apply command \<open>clearVersionFiles\<close> is never called when \<^verbatim>\<open>--dry-run\<close> is
  set, and never when a prerelease identifier is in use. It is called exactly when dry-run is
  off, the prerelease identifier is \<^verbatim>\<open>null\<close>, and the run gets as far as line 77: a
  workspace was found, \<open>resolveVersionFiles\<close> returned a map that is not empty, and
  \<open>applyReleases\<close> returned.
\<close>

theorem clearVersionFiles_when:
  "(ClearVersionFiles \<in> set (fst (execute opts e))) =
     (\<not> dryRun opts \<and> prereleaseIdentifier (prerelease opts) = None
      \<and> workspace e \<noteq> None
      \<and> (\<exists>allReleases. resolveVersionFiles e None = Inr allReleases \<and> dom allReleases \<noteq> {}
            \<and> snd (applyReleases e allReleases) = None))
   \<and> (dryRun opts \<longrightarrow> ClearVersionFiles \<notin> set (fst (execute opts e)))
   \<and> (prereleaseIdentifier (prerelease opts) \<noteq> None \<longrightarrow> ClearVersionFiles \<notin> set (fst (execute opts e)))
   \<and> (workspace e \<noteq> None
        \<and> resolveVersionFiles e (prereleaseIdentifier (prerelease opts)) = Inr allReleases
        \<and> snd (applyReleases e allReleases) = None \<longrightarrow>
          (ClearVersionFiles \<in> set (fst (execute opts e))) =
            (\<not> dryRun opts \<and> prereleaseIdentifier (prerelease opts) = None \<and> dom allReleases \<noteq> {}))"
proof -
  have main: "(ClearVersionFiles \<in> set (fst (execute opts e))) =
     (\<not> dryRun opts \<and> prereleaseIdentifier (prerelease opts) = None
      \<and> workspace e \<noteq> None
      \<and> (\<exists>allReleases. resolveVersionFiles e None = Inr allReleases \<and> dom allReleases \<noteq> {}
            \<and> snd (applyReleases e allReleases) = None))"
  proof (cases "workspace e")
    case None
    then show ?thesis by (simp add: execute_def)
  next
    case (Some ws)
    have "(ClearVersionFiles \<in> set (fst (execute opts e))) = (ClearVersionFiles \<in> set (fst (applyCallback opts e)))"
      using execute_events [OF Some, of opts] by blast
    with Some show ?thesis by (simp add: callback_clears)
  qed
  have reached: "(ClearVersionFiles \<in> set (fst (execute opts e))) =
            (\<not> dryRun opts \<and> prereleaseIdentifier (prerelease opts) = None \<and> dom allReleases \<noteq> {})"
    if "workspace e \<noteq> None"
      "resolveVersionFiles e (prereleaseIdentifier (prerelease opts)) = Inr allReleases"
      "snd (applyReleases e allReleases) = None"
    using that unfolding main by (cases "prereleaseIdentifier (prerelease opts)") auto
  have dry: "dryRun opts \<longrightarrow> ClearVersionFiles \<notin> set (fst (execute opts e))"
    unfolding main by simp
  have pre: "prereleaseIdentifier (prerelease opts) \<noteq> None \<longrightarrow> ClearVersionFiles \<notin> set (fst (execute opts e))"
    unfolding main by simp
  have line77: "workspace e \<noteq> None
        \<and> resolveVersionFiles e (prereleaseIdentifier (prerelease opts)) = Inr allReleases
        \<and> snd (applyReleases e allReleases) = None \<longrightarrow>
          (ClearVersionFiles \<in> set (fst (execute opts e))) =
            (\<not> dryRun opts \<and> prereleaseIdentifier (prerelease opts) = None \<and> dom allReleases \<noteq> {})"
    using reached by blast
  show ?thesis by (intro conjI) (fact main dry pre line77)+
qed

theorem clearVersionFiles_when_witness:
  "ClearVersionFiles \<in> set (fst (execute \<lparr>dryRun = False, prerelease = Absent, recursive = None, json = False\<rparr>
       (calm [''A'' \<mapsto> MINOR] None None)))
   \<and> ClearVersionFiles \<notin> set (fst (execute \<lparr>dryRun = True, prerelease = Absent, recursive = None, json = False\<rparr>
       (calm [''A'' \<mapsto> MINOR] None None)))
   \<and> ClearVersionFiles \<notin> set (fst (execute \<lparr>dryRun = False, prerelease = Text ''rc.%n'', recursive = None, json = False\<rparr>
       (calm [''A'' \<mapsto> MINOR] None None)))
   \<and> ClearVersionFiles \<notin> set (fst (execute \<lparr>dryRun = False, prerelease = Absent, recursive = None, json = False\<rparr>
       (calm Map.empty None None)))"
proof -
  note w = clearVersionFiles_when [where e = "calm [''A'' \<mapsto> MINOR] None None" and allReleases = "[''A'' \<mapsto> MINOR]"]
  have a: "ClearVersionFiles \<in> set (fst (execute \<lparr>dryRun = False, prerelease = Absent, recursive = None, json = False\<rparr>
       (calm [''A'' \<mapsto> MINOR] None None)))"
    using w [of "\<lparr>dryRun = False, prerelease = Absent, recursive = None, json = False\<rparr>"]
    by (simp add: calm_def prereleaseIdentifier_def)
  have b: "ClearVersionFiles \<notin> set (fst (execute \<lparr>dryRun = True, prerelease = Absent, recursive = None, json = False\<rparr>
       (calm [''A'' \<mapsto> MINOR] None None)))"
    using w [of "\<lparr>dryRun = True, prerelease = Absent, recursive = None, json = False\<rparr>"]
    by simp
  have c: "ClearVersionFiles \<notin> set (fst (execute \<lparr>dryRun = False, prerelease = Text ''rc.%n'', recursive = None, json = False\<rparr>
       (calm [''A'' \<mapsto> MINOR] None None)))"
    using w [of "\<lparr>dryRun = False, prerelease = Text ''rc.%n'', recursive = None, json = False\<rparr>"]
    by (simp add: prereleaseIdentifier_def)
  have d: "ClearVersionFiles \<notin> set (fst (execute \<lparr>dryRun = False, prerelease = Absent, recursive = None, json = False\<rparr>
       (calm Map.empty None None)))"
    using clearVersionFiles_when [where e = "calm Map.empty None None" and allReleases = Map.empty
        and opts = "\<lparr>dryRun = False, prerelease = Absent, recursive = None, json = False\<rparr>"]
    by (simp add: calm_def prereleaseIdentifier_def)
  from a b c d show ?thesis by simp
qed

text \<open>
  C5. In the apply command, when a workspace was found and \<open>resolveVersionFiles\<close> returns
  an empty map, the run makes three calls and no other: it restores the install state,
  resolves the version files and reports one warning. \<open>applyReleases\<close>,
  \<open>clearVersionFiles\<close> and the installer are not called, nothing is thrown, and the exit
  code is 0.
\<close>

theorem nothing_to_apply:
  assumes "workspace e \<noteq> None"
    and "resolveVersionFiles e (prereleaseIdentifier (prerelease opts)) = Inr allReleases"
    and "dom allReleases = {}"
  shows "execute opts e =
      ([RestoreInstallState,
        ResolveVersionFiles (prereleaseIdentifier (prerelease opts)),
        Report (ReportWarning ''The workspace doesn't seem to require a version bump.'')],
       Inr 0)
    \<and> applyCallback opts e =
      ([ResolveVersionFiles (prereleaseIdentifier (prerelease opts)),
        Report (ReportWarning ''The workspace doesn't seem to require a version bump.'')],
       Inr ())
    \<and> ClearVersionFiles \<notin> set (fst (execute opts e))
    \<and> Install \<notin> set (fst (execute opts e))
    \<and> (\<forall>m. ApplyReleases m \<notin> set (fst (execute opts e)))"
proof -
  have cb: "applyCallback opts e =
      ([ResolveVersionFiles (prereleaseIdentifier (prerelease opts)),
        Report (ReportWarning ''The workspace doesn't seem to require a version bump.'')],
       Inr ())"
    using assms(2,3) by (simp add: applyCallback_def Let_def andThen_Inr)
  have ex: "execute opts e =
      ([RestoreInstallState,
        ResolveVersionFiles (prereleaseIdentifier (prerelease opts)),
        Report (ReportWarning ''The workspace doesn't seem to require a version bump.'')],
       Inr 0)"
    using assms(1) unfolding execute_def cb
    by (auto simp: streamReportStart_def exitCode_def Let_def)
  show ?thesis unfolding ex using cb by simp
qed

theorem nothing_to_apply_witness:
  "workspace (calm Map.empty None None) \<noteq> None
   \<and> dom (Map.empty :: releases) = {}
   \<and> execute \<lparr>dryRun = False, prerelease = Absent, recursive = None, json = False\<rparr> (calm Map.empty None None) =
      ([RestoreInstallState, ResolveVersionFiles None,
        Report (ReportWarning ''The workspace doesn't seem to require a version bump.'')],
       Inr 0)"
proof -
  have "prereleaseIdentifier (prerelease \<lparr>dryRun = False, prerelease = Absent, recursive = None, json = False\<rparr>) = None"
    by (simp add: prereleaseIdentifier_def)
  then show ?thesis
    using nothing_to_apply [of "calm Map.empty None None"
        "\<lparr>dryRun = False, prerelease = Absent, recursive = None, json = False\<rparr>" Map.empty]
    by (simp add: calm_def)
qed

text \<open>
  C6, as the code has it. The prerelease identifier is the string given to
  \<^verbatim>\<open>--prerelease\<close> when that string is not empty, \<^verbatim>\<open>rc.%n\<close> when the option is the
  boolean \<^verbatim>\<open>true\<close>, and \<^verbatim>\<open>null\<close> when the option is absent, is the boolean
  \<^verbatim>\<open>false\<close> or is the empty string. When a workspace was found, this identifier is what
  \<open>resolveVersionFiles\<close> is called with, and it is called once.
\<close>

theorem prereleaseIdentifier_cases:
  "prereleaseIdentifier p =
     (case p of
        Text s \<Rightarrow> if s = '''' then None else Some s
      | Boolean b \<Rightarrow> if b then Some ''rc.%n'' else None
      | Absent \<Rightarrow> None)
   \<and> (workspace e \<noteq> None \<longrightarrow>
        filter (\<lambda>ev. case ev of ResolveVersionFiles _ \<Rightarrow> True | _ \<Rightarrow> False) (fst (execute opts e))
          = [ResolveVersionFiles (prereleaseIdentifier (prerelease opts))])"
proof -
  have ident: "prereleaseIdentifier p =
     (case p of
        Text s \<Rightarrow> if s = '''' then None else Some s
      | Boolean b \<Rightarrow> if b then Some ''rc.%n'' else None
      | Absent \<Rightarrow> None)"
    by (cases p) (auto simp: prereleaseIdentifier_def)
  let ?is = "\<lambda>ev. case ev of ResolveVersionFiles _ \<Rightarrow> True | _ \<Rightarrow> False"
  have reports: "filter ?is (map Report msgs) = []" for msgs
    by (induction msgs) simp_all
  have calls: "filter ?is (fst (call ev answer)) = (if ?is ev then [ev] else [])" for ev answer
    by (simp add: call_events reports)
  have cb: "filter ?is (fst (applyCallback opts e)) = [ResolveVersionFiles (prereleaseIdentifier (prerelease opts))]"
  proof (cases "resolveVersionFiles e (prereleaseIdentifier (prerelease opts))")
    case (Inl err)
    then show ?thesis by (simp add: applyCallback_def Let_def andThen_Inl)
  next
    case (Inr allReleases)
    show ?thesis
    proof (cases "snd (applyReleases e allReleases)")
      case (Some err)
      with Inr show ?thesis
        by (simp add: applyCallback_def Let_def andThen_Inr andThen_call reports)
    next
      case None
      with Inr show ?thesis
        by (simp add: applyCallback_def Let_def andThen_Inr andThen_call andThen_Inl noop_def
              call_events reports split: option.splits)
    qed
  qed
  have ex: "filter ?is (fst (execute opts e)) = [ResolveVersionFiles (prereleaseIdentifier (prerelease opts))]"
    if "workspace e \<noteq> None"
  proof -
    obtain evs r where run: "applyCallback opts e = (evs, r)" by (cases "applyCallback opts e")
    with cb have "filter ?is evs = [ResolveVersionFiles (prereleaseIdentifier (prerelease opts))]" by simp
    with that run show ?thesis
      by (cases r) (auto simp: execute_def Let_def streamReportStart_def)
  qed
  from ident ex show ?thesis by blast
qed

theorem prereleaseIdentifier_cases_witness:
  "prereleaseIdentifier (Text ''beta.%n'') = Some ''beta.%n''
   \<and> prereleaseIdentifier (Boolean True) = Some ''rc.%n''
   \<and> prereleaseIdentifier Absent = None
   \<and> prereleaseIdentifier (Boolean False) = None
   \<and> prereleaseIdentifier (Text '''') = None
   \<and> workspace (calm Map.empty None None) \<noteq> None
   \<and> filter (\<lambda>ev. case ev of ResolveVersionFiles _ \<Rightarrow> True | _ \<Rightarrow> False)
        (fst (execute \<lparr>dryRun = False, prerelease = Boolean True, recursive = None, json = False\<rparr>
           (calm Map.empty None None)))
       = [ResolveVersionFiles (Some ''rc.%n'')]"
proof -
  have w: "workspace (calm Map.empty None None) \<noteq> None" by (simp add: calm_def)
  have "filter (\<lambda>ev. case ev of ResolveVersionFiles _ \<Rightarrow> True | _ \<Rightarrow> False)
        (fst (execute \<lparr>dryRun = False, prerelease = Boolean True, recursive = None, json = False\<rparr>
           (calm Map.empty None None)))
       = [ResolveVersionFiles (prereleaseIdentifier (Boolean True))]"
    using prereleaseIdentifier_cases [of Absent "calm Map.empty None None"
        "\<lparr>dryRun = False, prerelease = Boolean True, recursive = None, json = False\<rparr>"] w
    by simp
  with w show ?thesis
    using prereleaseIdentifier_cases [of "Text ''beta.%n''" "calm Map.empty None None"]
      prereleaseIdentifier_cases [of "Boolean True" "calm Map.empty None None"]
      prereleaseIdentifier_cases [of "Boolean False" "calm Map.empty None None"]
      prereleaseIdentifier_cases [of "Text ''''" "calm Map.empty None None"]
      prereleaseIdentifier_cases [of Absent "calm Map.empty None None"]
    by simp
qed

text \<open>
  C6, as the claim states it, fails: when the string given to \<^verbatim>\<open>--prerelease\<close> is the
  empty string, the identifier passed to \<open>resolveVersionFiles\<close> is \<^verbatim>\<open>null\<close>, not that
  string.
\<close>

theorem prereleaseIdentifier_empty_string:
  "prereleaseIdentifier (Text '''') \<noteq> Some ''''
   \<and> fst (execute \<lparr>dryRun = True, prerelease = Text '''', recursive = None, json = False\<rparr>
        (calm Map.empty None None))
      = [RestoreInstallState, ResolveVersionFiles None,
         Report (ReportWarning ''The workspace doesn't seem to require a version bump.'')]"
  by (simp add: prereleaseIdentifier_def execute_def applyCallback_def calm_def andThen_def
        streamReportStart_def Let_def)

section \<open>The check command: the claims\<close>

lemma reaches_form:
  assumes "checkRequirements e = None" "workspace e \<noteq> None" "openVersionFile e = Inr (Some vf)"
    "releaseRoots vf \<noteq> {}" "root vf \<noteq> None"
  shows "executeInteractive e =
     (case renderForm e vf of
        None \<Rightarrow>
          ([CheckRequirements, RestoreInstallState, OpenVersionFile, RenderForm vf], Some vf, Inr (Some 1))
      | Some decisions \<Rightarrow>
          ([CheckRequirements, RestoreInstallState, OpenVersionFile, RenderForm vf,
            SaveAll (vf\<lparr>releases := decisions\<rparr>)],
           Some (vf\<lparr>releases := decisions\<rparr>),
           (case saveAll e (vf\<lparr>releases := decisions\<rparr>) of Some err \<Rightarrow> Inl err | None \<Rightarrow> Inr None)))"
proof -
  from assms(2) obtain ws where "workspace e = Some ws" by auto
  with assms(1,3,4,5) show ?thesis
    by (simp add: executeInteractive_def Let_def split: option.splits)
qed

lemma saves_iff:
  "(\<exists>saved. SaveAll saved \<in> set (fst (executeInteractive e))) =
     (checkRequirements e = None \<and> workspace e \<noteq> None
      \<and> (\<exists>vf. openVersionFile e = Inr (Some vf) \<and> releaseRoots vf \<noteq> {} \<and> root vf \<noteq> None
            \<and> renderForm e vf \<noteq> None))"
  by (auto simp: executeInteractive_def Let_def split: option.splits sum.splits)

lemma renders_iff:
  "(\<exists>shown. RenderForm shown \<in> set (fst (executeInteractive e))) =
     (checkRequirements e = None \<and> workspace e \<noteq> None
      \<and> (\<exists>vf. openVersionFile e = Inr (Some vf) \<and> releaseRoots vf \<noteq> {} \<and> root vf \<noteq> None))"
  by (auto simp: executeInteractive_def Let_def split: option.splits sum.splits)

text \<open>
  C4. When the check command shows its form and the form is aborted (\<open>renderForm\<close> returns
  \<^verbatim>\<open>undefined\<close>), \<open>saveAll\<close> is not called, the version file in memory is the one that
  was opened, its decision map included, and the command returns 1. In every run,
  \<open>saveAll\<close> is called only when the form was shown and returned a decision map.
\<close>

theorem aborted_form_saves_nothing:
  "(checkRequirements e = None \<and> workspace e \<noteq> None \<and> openVersionFile e = Inr (Some vf)
      \<and> releaseRoots vf \<noteq> {} \<and> root vf \<noteq> None \<and> renderForm e vf = None \<longrightarrow>
        executeInteractive e =
          ([CheckRequirements, RestoreInstallState, OpenVersionFile, RenderForm vf], Some vf, Inr (Some 1))
        \<and> (\<forall>saved. SaveAll saved \<notin> set (fst (executeInteractive e)))
        \<and> map_option releases (fst (snd (executeInteractive e))) = Some (releases vf))
   \<and> ((\<exists>saved. SaveAll saved \<in> set (fst (executeInteractive e))) \<longrightarrow>
        (\<exists>opened decisions. openVersionFile e = Inr (Some opened) \<and> renderForm e opened = Some decisions))"
proof -
  have aborted: "executeInteractive e =
          ([CheckRequirements, RestoreInstallState, OpenVersionFile, RenderForm vf], Some vf, Inr (Some 1))
        \<and> (\<forall>saved. SaveAll saved \<notin> set (fst (executeInteractive e)))
        \<and> map_option releases (fst (snd (executeInteractive e))) = Some (releases vf)"
    if "checkRequirements e = None" "workspace e \<noteq> None" "openVersionFile e = Inr (Some vf)"
      "releaseRoots vf \<noteq> {}" "root vf \<noteq> None" "renderForm e vf = None"
    using reaches_form [OF that(1-5)] that(6) by simp
  have only: "(\<exists>saved. SaveAll saved \<in> set (fst (executeInteractive e))) \<longrightarrow>
        (\<exists>opened decisions. openVersionFile e = Inr (Some opened) \<and> renderForm e opened = Some decisions)"
    unfolding saves_iff by auto
  have first: "checkRequirements e = None \<and> workspace e \<noteq> None \<and> openVersionFile e = Inr (Some vf)
      \<and> releaseRoots vf \<noteq> {} \<and> root vf \<noteq> None \<and> renderForm e vf = None \<longrightarrow>
        executeInteractive e =
          ([CheckRequirements, RestoreInstallState, OpenVersionFile, RenderForm vf], Some vf, Inr (Some 1))
        \<and> (\<forall>saved. SaveAll saved \<notin> set (fst (executeInteractive e)))
        \<and> map_option releases (fst (snd (executeInteractive e))) = Some (releases vf)"
    using aborted by blast
  show ?thesis by (intro conjI) (fact first only)+
qed

theorem aborted_form_saves_nothing_witness:
  "checkRequirements (calm Map.empty (Some (chainFile\<lparr>releases := [''A'' \<mapsto> PATCH]\<rparr>)) None) = None
   \<and> releaseRoots (chainFile\<lparr>releases := [''A'' \<mapsto> PATCH]\<rparr>) \<noteq> {}
   \<and> root (chainFile\<lparr>releases := [''A'' \<mapsto> PATCH]\<rparr>) \<noteq> None
   \<and> executeInteractive (calm Map.empty (Some (chainFile\<lparr>releases := [''A'' \<mapsto> PATCH]\<rparr>)) None) =
       ([CheckRequirements, RestoreInstallState, OpenVersionFile,
         RenderForm (chainFile\<lparr>releases := [''A'' \<mapsto> PATCH]\<rparr>)],
        Some (chainFile\<lparr>releases := [''A'' \<mapsto> PATCH]\<rparr>), Inr (Some 1))"
proof -
  have h: "checkRequirements (calm Map.empty (Some (chainFile\<lparr>releases := [''A'' \<mapsto> PATCH]\<rparr>)) None) = None"
      "releaseRoots (chainFile\<lparr>releases := [''A'' \<mapsto> PATCH]\<rparr>) \<noteq> {}"
      "root (chainFile\<lparr>releases := [''A'' \<mapsto> PATCH]\<rparr>) \<noteq> None"
    by (simp_all add: calm_def chainFile_def)
  have "executeInteractive (calm Map.empty (Some (chainFile\<lparr>releases := [''A'' \<mapsto> PATCH]\<rparr>)) None) =
       ([CheckRequirements, RestoreInstallState, OpenVersionFile,
         RenderForm (chainFile\<lparr>releases := [''A'' \<mapsto> PATCH]\<rparr>)],
        Some (chainFile\<lparr>releases := [''A'' \<mapsto> PATCH]\<rparr>), Inr (Some 1))"
    using aborted_form_saves_nothing
      [of "calm Map.empty (Some (chainFile\<lparr>releases := [''A'' \<mapsto> PATCH]\<rparr>)) None"
          "chainFile\<lparr>releases := [''A'' \<mapsto> PATCH]\<rparr>"] h
    by (simp add: calm_def)
  with h show ?thesis by simp
qed

text \<open>
  C7. When the requirements are met and a workspace was found, the check command returns 0
  without showing the form and without saving if \<open>openVersionFile\<close> returns \<^verbatim>\<open>null\<close> or
  the version file has no release root. If the version file has a release root and its
  \<open>root\<close> is \<^verbatim>\<open>null\<close>, the command throws the usage error that asks for a Git
  repository, again without showing the form and without saving.
\<close>

theorem check_early_exits:
  "(checkRequirements e = None \<and> workspace e \<noteq> None \<and> openVersionFile e = Inr opened
      \<and> (opened = None \<or> (\<exists>vf. opened = Some vf \<and> releaseRoots vf = {})) \<longrightarrow>
        executeInteractive e = ([CheckRequirements, RestoreInstallState, OpenVersionFile], opened, Inr (Some 0)))
   \<and> (checkRequirements e = None \<and> workspace e \<noteq> None \<and> openVersionFile e = Inr (Some vf)
      \<and> releaseRoots vf \<noteq> {} \<and> root vf = None \<longrightarrow>
        executeInteractive e =
          ([CheckRequirements, RestoreInstallState, OpenVersionFile], Some vf,
           Inl (UsageError ''This command can only be run on Git repositories'')))
   \<and> ((\<exists>vf. openVersionFile e = Inr (Some vf) \<and> releaseRoots vf \<noteq> {} \<and> root vf \<noteq> None)
        \<or> (\<forall>shown. RenderForm shown \<notin> set (fst (executeInteractive e))
             \<and> SaveAll shown \<notin> set (fst (executeInteractive e))))"
proof -
  have unopened: "executeInteractive e = ([CheckRequirements, RestoreInstallState, OpenVersionFile], opened, Inr (Some 0))"
    if "checkRequirements e = None" "workspace e \<noteq> None" "openVersionFile e = Inr opened"
      "opened = None \<or> (\<exists>vf. opened = Some vf \<and> releaseRoots vf = {})"
  proof -
    from that(2) obtain ws where "workspace e = Some ws" by auto
    with that(1,3,4) show ?thesis by (auto simp: executeInteractive_def)
  qed
  have git: "executeInteractive e =
          ([CheckRequirements, RestoreInstallState, OpenVersionFile], Some vf,
           Inl (UsageError ''This command can only be run on Git repositories''))"
    if "checkRequirements e = None" "workspace e \<noteq> None" "openVersionFile e = Inr (Some vf)"
      "releaseRoots vf \<noteq> {}" "root vf = None"
  proof -
    from that(2) obtain ws where "workspace e = Some ws" by auto
    with that show ?thesis by (simp add: executeInteractive_def)
  qed
  have quiet: "(\<exists>vf. openVersionFile e = Inr (Some vf) \<and> releaseRoots vf \<noteq> {} \<and> root vf \<noteq> None)
        \<or> (\<forall>shown. RenderForm shown \<notin> set (fst (executeInteractive e))
             \<and> SaveAll shown \<notin> set (fst (executeInteractive e)))"
    using renders_iff [of e] saves_iff [of e] by blast
  have first: "checkRequirements e = None \<and> workspace e \<noteq> None \<and> openVersionFile e = Inr opened
      \<and> (opened = None \<or> (\<exists>vf. opened = Some vf \<and> releaseRoots vf = {})) \<longrightarrow>
        executeInteractive e = ([CheckRequirements, RestoreInstallState, OpenVersionFile], opened, Inr (Some 0))"
    using unopened by blast
  have second: "checkRequirements e = None \<and> workspace e \<noteq> None \<and> openVersionFile e = Inr (Some vf)
      \<and> releaseRoots vf \<noteq> {} \<and> root vf = None \<longrightarrow>
        executeInteractive e =
          ([CheckRequirements, RestoreInstallState, OpenVersionFile], Some vf,
           Inl (UsageError ''This command can only be run on Git repositories''))"
    using git by blast
  show ?thesis by (intro conjI) (fact first second quiet)+
qed

theorem check_early_exits_witness:
  "executeInteractive (calm Map.empty None None) =
     ([CheckRequirements, RestoreInstallState, OpenVersionFile], None, Inr (Some 0))
   \<and> executeInteractive (calm Map.empty (Some (chainFile\<lparr>releaseRoots := {}\<rparr>)) None) =
     ([CheckRequirements, RestoreInstallState, OpenVersionFile], Some (chainFile\<lparr>releaseRoots := {}\<rparr>),
      Inr (Some 0))
   \<and> executeInteractive (calm Map.empty (Some (chainFile\<lparr>root := None\<rparr>)) None) =
     ([CheckRequirements, RestoreInstallState, OpenVersionFile], Some (chainFile\<lparr>root := None\<rparr>),
      Inl (UsageError ''This command can only be run on Git repositories''))"
proof -
  have a: "executeInteractive (calm Map.empty None None) =
     ([CheckRequirements, RestoreInstallState, OpenVersionFile], None, Inr (Some 0))"
    using check_early_exits [of "calm Map.empty None None" None]
    by (simp add: calm_def)
  have b: "executeInteractive (calm Map.empty (Some (chainFile\<lparr>releaseRoots := {}\<rparr>)) None) =
     ([CheckRequirements, RestoreInstallState, OpenVersionFile], Some (chainFile\<lparr>releaseRoots := {}\<rparr>),
      Inr (Some 0))"
    using check_early_exits [of "calm Map.empty (Some (chainFile\<lparr>releaseRoots := {}\<rparr>)) None"
        "Some (chainFile\<lparr>releaseRoots := {}\<rparr>)"]
    by (simp add: calm_def)
  have c: "executeInteractive (calm Map.empty (Some (chainFile\<lparr>root := None\<rparr>)) None) =
     ([CheckRequirements, RestoreInstallState, OpenVersionFile], Some (chainFile\<lparr>root := None\<rparr>),
      Inl (UsageError ''This command can only be run on Git repositories''))"
    using check_early_exits [of "calm Map.empty (Some (chainFile\<lparr>root := None\<rparr>)) None" None
        "chainFile\<lparr>root := None\<rparr>"]
    by (simp add: calm_def chainFile_def)
  from a b c show ?thesis by simp
qed

text \<open>
  C10. When the check command shows its form and the form returns a decision map, the
  version file handed to \<open>saveAll\<close> is the opened one with its decision map replaced by the
  returned map: it has every entry of the returned map and no other, whatever the opened
  file's decision map held, and \<open>saveAll\<close> is the last call of the run.
\<close>

theorem confirmed_form_replaces_releases:
  assumes "checkRequirements e = None" "workspace e \<noteq> None" "openVersionFile e = Inr (Some vf)"
    "releaseRoots vf \<noteq> {}" "root vf \<noteq> None" "renderForm e vf = Some decisions"
  shows "\<exists>saved. fst (executeInteractive e) =
        [CheckRequirements, RestoreInstallState, OpenVersionFile, RenderForm vf, SaveAll saved]
      \<and> fst (snd (executeInteractive e)) = Some saved
      \<and> releases saved = decisions
      \<and> saved = vf\<lparr>releases := decisions\<rparr>
      \<and> (\<forall>w. decisions w = None \<longrightarrow> releases saved w = None)
      \<and> (\<forall>w d. decisions w = Some d \<longrightarrow> releases saved w = Some d)"
  using reaches_form [OF assms(1-5)] assms(6) by simp

theorem confirmed_form_replaces_releases_witness:
  "fst (executeInteractive
      (calm Map.empty (Some (chainFile\<lparr>releases := [''A'' \<mapsto> PATCH, ''C'' \<mapsto> MAJOR]\<rparr>))
         (Some [''A'' \<mapsto> MINOR, ''B'' \<mapsto> DECLINE])))
     = [CheckRequirements, RestoreInstallState, OpenVersionFile,
        RenderForm (chainFile\<lparr>releases := [''A'' \<mapsto> PATCH, ''C'' \<mapsto> MAJOR]\<rparr>),
        SaveAll (chainFile\<lparr>releases := [''A'' \<mapsto> MINOR, ''B'' \<mapsto> DECLINE]\<rparr>)]
   \<and> (\<exists>saved. fst (snd (executeInteractive
      (calm Map.empty (Some (chainFile\<lparr>releases := [''A'' \<mapsto> PATCH, ''C'' \<mapsto> MAJOR]\<rparr>))
         (Some [''A'' \<mapsto> MINOR, ''B'' \<mapsto> DECLINE])))) = Some saved
       \<and> releases saved ''A'' = Some MINOR \<and> releases saved ''B'' = Some DECLINE
       \<and> releases saved ''C'' = None)"
proof -
  let ?old = "chainFile\<lparr>releases := [''A'' \<mapsto> PATCH, ''C'' \<mapsto> MAJOR]\<rparr>"
  let ?e = "calm Map.empty (Some ?old) (Some [''A'' \<mapsto> MINOR, ''B'' \<mapsto> DECLINE])"
  have h: "checkRequirements ?e = None" "workspace ?e \<noteq> None" "openVersionFile ?e = Inr (Some ?old)"
      "releaseRoots ?old \<noteq> {}" "root ?old \<noteq> None"
      "renderForm ?e ?old = Some [''A'' \<mapsto> MINOR, ''B'' \<mapsto> DECLINE]"
    by (simp_all add: calm_def chainFile_def)
  from confirmed_form_replaces_releases [OF h]
  obtain saved where s: "fst (executeInteractive ?e) =
        [CheckRequirements, RestoreInstallState, OpenVersionFile, RenderForm ?old, SaveAll saved]"
      "fst (snd (executeInteractive ?e)) = Some saved"
      "saved = ?old\<lparr>releases := [''A'' \<mapsto> MINOR, ''B'' \<mapsto> DECLINE]\<rparr>"
    by blast
  from s show ?thesis by simp
qed

end
